theory Spec2Isabelle
  imports Main "HOL-Library.Multiset"
begin

section \<open>Python values and exceptions\<close>

text \<open>
  The transformer of \<^verbatim>\<open>detect_secrets/transformers/yaml.py\<close> works on the objects that
  PyYAML's \<^verbatim>\<open>SafeLoader\<close> constructs. They are dynamically typed, so the model has one
  type of Python values. A \<^verbatim>\<open>str\<close> is a list of characters; a character stands for a
  code point below 256. \<open>PFloat m e\<close> is the float \<open>m * 2 ^ e\<close> (only its truth value
  matters here), \<open>PDate\<close> a \<^verbatim>\<open>datetime\<close> object, and \<open>PList\<close> stands for a list, a
  tuple or a set in iteration order: the code treats the three alike (membership by
  element equality, iteration over the elements, \<^verbatim>\<open>TypeError\<close> on a \<^verbatim>\<open>str\<close>
  subscript). A \<^verbatim>\<open>dict\<close> is its list of items in insertion order.
\<close>

datatype pyval =
    PNone
  | PBool bool
  | PInt int
  | PFloat int int
  | PStr string
  | PBytes string
  | PDate string
  | PList "pyval list"
  | PDict "(pyval \<times> pyval) list"

text \<open>Every exception the code can raise is a value; \<open>Inl\<close> of a sum carries it.\<close>

datatype py_error =
    ParsingError
  | YAMLError
  | IndexError
  | KeyError
  | TypeError
  | AttributeError
  | ValueError

section \<open>The string operations the transformer calls\<close>

text \<open>
  \<^verbatim>\<open>str.isspace\<close> of one character, which is also the class \<^verbatim>\<open>\s\<close> of \<^verbatim>\<open>re\<close> on a
  \<^verbatim>\<open>str\<close> pattern: the code points 9 to 13, 28 to 32, 133 and 160.
\<close>

definition is_space :: "char \<Rightarrow> bool" where
  "is_space c =
     (let n = (of_char c :: nat)
      in (9 \<le> n \<and> n \<le> 13) \<or> (28 \<le> n \<and> n \<le> 32) \<or> n = 133 \<or> n = 160)"

text \<open>\<^verbatim>\<open>str.strip()\<close>: whitespace is removed at both ends.\<close>

definition strip :: "string \<Rightarrow> string" where
  "strip s = rev (dropWhile is_space (rev (dropWhile is_space s)))"

text \<open>
  The line boundaries of \<^verbatim>\<open>str.splitlines()\<close> below code point 256: LF, VT, FF, CR, FS,
  GS, RS and NEL; CR LF counts once.
\<close>

definition is_linebreak :: "char \<Rightarrow> bool" where
  "is_linebreak c =
     (let n = (of_char c :: nat)
      in (10 \<le> n \<and> n \<le> 13) \<or> (28 \<le> n \<and> n \<le> 30) \<or> n = 133)"

fun splitlines_from :: "string \<Rightarrow> string \<Rightarrow> string list" where
  "splitlines_from cur [] = (if cur = [] then [] else [rev cur])"
| "splitlines_from cur [c] =
     (if is_linebreak c then [rev cur] else [rev (c # cur)])"
| "splitlines_from cur (c # d # cs) =
     (if c = CHR 0x0D \<and> d = CHR 0x0A then rev cur # splitlines_from [] cs
      else if is_linebreak c then rev cur # splitlines_from [] (d # cs)
      else splitlines_from (c # cur) (d # cs))"

definition splitlines :: "string \<Rightarrow> string list" where
  "splitlines s = splitlines_from [] s"

text \<open>
  \<^verbatim>\<open>value.replace('"', '\\"')\<close>: \<^verbatim>\<open>str.replace\<close> with a pattern of one character puts
  the replacement in the place of each occurrence.
\<close>

fun str_replace1 :: "char \<Rightarrow> string \<Rightarrow> string \<Rightarrow> string" where
  "str_replace1 old new [] = []"
| "str_replace1 old new (c # cs) =
     (if c = old then new @ str_replace1 old new cs else c # str_replace1 old new cs)"

subsection \<open>base64.b64encode\<close>

definition b64_alphabet :: string where
  "b64_alphabet = ''ABCDEFGHIJKLMNOPQRSTUVWXYZabcdefghijklmnopqrstuvwxyz0123456789+/''"

definition b64_char :: "nat \<Rightarrow> char" where
  "b64_char n = b64_alphabet ! (n mod 64)"

fun b64encode :: "string \<Rightarrow> string" where
  "b64encode [] = []"
| "b64encode [a] =
     (let n = of_char a * 65536
      in [b64_char (n div 262144), b64_char (n div 4096), CHR ''='', CHR ''=''])"
| "b64encode [a, b] =
     (let n = of_char a * 65536 + of_char b * 256
      in [b64_char (n div 262144), b64_char (n div 4096), b64_char (n div 64), CHR ''=''])"
| "b64encode (a # b # c # rest) =
     (let n = of_char a * 65536 + of_char b * 256 + of_char c
      in [b64_char (n div 262144), b64_char (n div 4096), b64_char (n div 64), b64_char n]
         @ b64encode rest)"

subsection \<open>The comment pattern\<close>

text \<open>
  \<^verbatim>\<open>_yaml_comment_regex()\<close> is \<^verbatim>\<open>re.compile(r'(\s+#[\S ]*)')\<close>. \<open>comment_class\<close> is the
  class \<^verbatim>\<open>[\S ]\<close>. \<open>match_ws_hash s k\<close> is the backtracking of the greedy \<^verbatim>\<open>\s+\<close> at
  the start of \<open>s\<close>: it tries \<open>k\<close> whitespace characters, then \<open>k - 1\<close>, down to one,
  and takes the first length after which a \<^verbatim>\<open>#\<close> stands; the greedy \<^verbatim>\<open>[\S ]*\<close> then takes
  all it can. \<open>match_at\<close> is \<^verbatim>\<open>Pattern.match\<close> at the start of \<open>s\<close>, and
  \<open>yaml_comment_regex_search\<close> is \<^verbatim>\<open>Pattern.search\<close> followed by \<^verbatim>\<open>group(0)\<close>: the
  match at the leftmost position that has one.
\<close>

definition comment_class :: "char \<Rightarrow> bool" where
  "comment_class c = (\<not> is_space c \<or> c = CHR '' '')"

fun match_ws_hash :: "string \<Rightarrow> nat \<Rightarrow> string option" where
  "match_ws_hash s 0 = None"
| "match_ws_hash s (Suc k) =
     (case drop (Suc k) s of
        c # rest \<Rightarrow>
          if c = CHR ''#'' then Some (take (Suc k) s @ c # takeWhile comment_class rest)
          else match_ws_hash s k
      | [] \<Rightarrow> match_ws_hash s k)"

definition match_at :: "string \<Rightarrow> string option" where
  "match_at s = match_ws_hash s (length (takeWhile is_space s))"

fun yaml_comment_regex_search :: "string \<Rightarrow> string option" where
  "yaml_comment_regex_search [] = match_at []"
| "yaml_comment_regex_search (c # cs) =
     (case match_at (c # cs) of
        Some m \<Rightarrow> Some m
      | None \<Rightarrow> yaml_comment_regex_search cs)"

section \<open>The values the parser yields\<close>

text \<open>
  \<^verbatim>\<open>class YAMLValue(NamedTuple)\<close>. A named tuple does not check its field types, so
  \<open>key\<close> and \<open>val\<close> (the field \<^verbatim>\<open>value\<close>) hold whatever the document gave. The
  field \<open>line_number\<close> is an integer: the lookup \<^verbatim>\<open>lines[item['__line__'] - 1]\<close> in the
  same expression raises for every other type but \<^verbatim>\<open>bool\<close>, which Python counts as 0 or 1.
\<close>

record YAMLValue =
  key :: pyval
  val :: pyval
  line_number :: int
  line :: string

section \<open>YAMLFileParser.__iter__\<close>

text \<open>\<^verbatim>\<open>not item\<close> is the negation of Python's truth value.\<close>

fun truthy :: "pyval \<Rightarrow> bool" where
  "truthy PNone = False"
| "truthy (PBool b) = b"
| "truthy (PInt n) = (n \<noteq> 0)"
| "truthy (PFloat m e) = (m \<noteq> 0)"
| "truthy (PStr s) = (s \<noteq> [])"
| "truthy (PBytes b) = (b \<noteq> [])"
| "truthy (PDate d) = True"
| "truthy (PList xs) = (xs \<noteq> [])"
| "truthy (PDict kvs) = (kvs \<noteq> [])"

text \<open>\<^verbatim>\<open>p in s\<close> on two \<^verbatim>\<open>str\<close>: \<open>p\<close> occurs in \<open>s\<close> as a substring.\<close>

fun str_contains :: "string \<Rightarrow> string \<Rightarrow> bool" where
  "str_contains p [] = (p = [])"
| "str_contains p (c # cs) = (take (length p) (c # cs) = p \<or> str_contains p cs)"

text \<open>
  \<^verbatim>\<open>name in item\<close> for a \<^verbatim>\<open>str\<close> \<open>name\<close>: a key of a dict, an element of a list, a
  substring of a \<^verbatim>\<open>str\<close>; every other type raises \<^verbatim>\<open>TypeError\<close> (\<^verbatim>\<open>bytes\<close> too: its
  \<^verbatim>\<open>in\<close> takes no \<^verbatim>\<open>str\<close>).
\<close>

fun py_in :: "string \<Rightarrow> pyval \<Rightarrow> py_error + bool" where
  "py_in name (PDict kvs) = Inr (PStr name \<in> set (map fst kvs))"
| "py_in name (PList xs) = Inr (PStr name \<in> set xs)"
| "py_in name (PStr s) = Inr (str_contains name s)"
| "py_in name other = Inl TypeError"

text \<open>\<^verbatim>\<open>item[name]\<close> for a \<^verbatim>\<open>str\<close> \<open>name\<close>: only a dict takes it.\<close>

fun subscript :: "pyval \<Rightarrow> string \<Rightarrow> py_error + pyval" where
  "subscript (PDict kvs) name =
     (case map_of kvs (PStr name) of Some v \<Rightarrow> Inr v | None \<Rightarrow> Inl KeyError)"
| "subscript other name = Inl TypeError"

text \<open>\<^verbatim>\<open>n - 1\<close> used as a list index needs an \<^verbatim>\<open>int\<close> (or a \<^verbatim>\<open>bool\<close>).\<close>

fun as_int :: "pyval \<Rightarrow> py_error + int" where
  "as_int (PInt n) = Inr n"
| "as_int (PBool b) = Inr (if b then 1 else 0)"
| "as_int other = Inl TypeError"

text \<open>\<^verbatim>\<open>xs[i]\<close>: a negative index counts from the end; out of range raises.\<close>

definition list_get :: "'a list \<Rightarrow> int \<Rightarrow> py_error + 'a" where
  "list_get xs i =
     (if 0 \<le> i \<and> i < int (length xs) then Inr (xs ! nat i)
      else if i < 0 \<and> - int (length xs) \<le> i then Inr (xs ! nat (int (length xs) + i))
      else Inl IndexError)"

text \<open>
  The \<^verbatim>\<open>YAMLValue(...)\<close> expression of the \<^verbatim>\<open>yield\<close>: the four arguments are evaluated
  in order, and the first one that raises ends the iteration.
\<close>

definition make_value :: "string list \<Rightarrow> pyval \<Rightarrow> py_error + YAMLValue" where
  "make_value src item =
     (case subscript item ''__original_key__'' of Inl e \<Rightarrow> Inl e | Inr k \<Rightarrow>
      case subscript item ''__value__'' of Inl e \<Rightarrow> Inl e | Inr v \<Rightarrow>
      case subscript item ''__line__'' of Inl e \<Rightarrow> Inl e | Inr n \<Rightarrow>
      case as_int n of Inl e \<Rightarrow> Inl e | Inr i \<Rightarrow>
      case list_get src (i - 1) of Inl e \<Rightarrow> Inl e | Inr l \<Rightarrow>
        Inr \<lparr>key = k, val = v, line_number = i, line = l\<rparr>)"

text \<open>
  What \<^verbatim>\<open>to_search.extend\<close> receives: \<^verbatim>\<open>item.values()\<close> of a dict, the elements of a
  list. (A \<^verbatim>\<open>str\<close> has left the loop before.)
\<close>

fun children :: "pyval \<Rightarrow> pyval list" where
  "children (PDict kvs) = map snd kvs"
| "children (PList xs) = xs"
| "children other = []"

text \<open>The queue shrinks by this measure at every turn of the loop.\<close>

definition queue_size :: "pyval list \<Rightarrow> nat" where
  "queue_size q = sum_list (map (\<lambda>v. Suc (size v)) q)"

text \<open>
  The \<^verbatim>\<open>while to_search\<close> loop, on the queue. The generator is consumed whole by
  \<^verbatim>\<open>sorted\<close>, so its result is the list of the values it yields, or the first exception.
\<close>

function yaml_iter :: "string list \<Rightarrow> pyval list \<Rightarrow> py_error + YAMLValue list" where
  "yaml_iter src [] = Inr []"
| "yaml_iter src (item # to_search) =
     (if \<not> truthy item then yaml_iter src to_search
      else case py_in ''__line__'' item of
        Inl e \<Rightarrow> yaml_iter src to_search
      | Inr False \<Rightarrow>
          (case item of
             PStr s \<Rightarrow> yaml_iter src to_search
           | other \<Rightarrow> yaml_iter src (to_search @ children item))
      | Inr True \<Rightarrow>
          (case make_value src item of
             Inl e \<Rightarrow> Inl e
           | Inr v \<Rightarrow>
               (case yaml_iter src to_search of
                  Inl e \<Rightarrow> Inl e
                | Inr vs \<Rightarrow> Inr (v # vs))))"
  by pat_completeness auto

lemma queue_size_values: "queue_size (map snd kvs) \<le> size_list (size_prod size size) kvs"
  by (induction kvs) (auto simp: queue_size_def)

lemma queue_size_elements: "queue_size xs = size_list size xs"
  by (induction xs) (auto simp: queue_size_def)

lemma queue_size_append: "queue_size (xs @ ys) = queue_size xs + queue_size ys"
  by (simp add: queue_size_def)

lemma queue_size_Cons: "queue_size (x # xs) = Suc (size x) + queue_size xs"
  by (simp add: queue_size_def)

lemma queue_size_elements_less: "queue_size xs < Suc (Suc (size_list size xs))"
  by (simp add: queue_size_elements)

lemma queue_size_values_less:
  "queue_size (map snd kvs) < Suc (Suc (size_list (size_prod size size) kvs))"
  using queue_size_values [of kvs] by simp

termination yaml_iter
  by (relation "measure (\<lambda>(src, q). queue_size q)")
     (auto simp: queue_size_Cons queue_size_append queue_size_elements_less
        queue_size_values_less)

section \<open>YAMLTransformer.parse_file\<close>

text \<open>
  Lines 35 to 38. \<open>loaded\<close> is what PyYAML gives for the content: the object that
  \<^verbatim>\<open>SafeLoader(content).get_single_data()\<close> constructs under the two shims, or the
  exception it raises. The library is not part of the repository, so its outcome is a
  parameter. Only \<^verbatim>\<open>yaml.YAMLError\<close> is caught and replaced by \<^verbatim>\<open>ParsingError\<close>; Python's
  \<^verbatim>\<open>sorted\<close> is stable, as \<open>sort_key\<close> is.
\<close>

definition sorted_items :: "string \<Rightarrow> py_error + pyval \<Rightarrow> py_error + YAMLValue list" where
  "sorted_items content loaded =
     (case loaded of
        Inl e \<Rightarrow> if e = YAMLError then Inl ParsingError else Inl e
      | Inr data \<Rightarrow>
          (case yaml_iter (splitlines content) [data] of
             Inl e \<Rightarrow> if e = YAMLError then Inl ParsingError else Inl e
           | Inr items \<Rightarrow> Inr (sort_key line_number items)))"

text \<open>Lines 42 and 43: \<^verbatim>\<open>while len(lines) < item.line_number - 1: lines.append('')\<close>.\<close>

function pad_lines :: "string list \<Rightarrow> int \<Rightarrow> string list" where
  "pad_lines acc n =
     (if int (length acc) < n - 1 then pad_lines (acc @ [[]]) n else acc)"
  by pat_completeness auto
termination
  by (relation "measure (\<lambda>(acc, n). nat (n - 1 - int (length acc)))") auto

declare pad_lines.simps [simp del]

text \<open>
  Lines 45 to 61 and 78: a \<^verbatim>\<open>bytes\<close> value is encoded to base64 text, then every double
  quote of the text gets a backslash. \<^verbatim>\<open>replace\<close> is a method of \<^verbatim>\<open>str\<close>: the call
  raises on any other value (\<^verbatim>\<open>TypeError\<close> for a date, whose own \<^verbatim>\<open>replace\<close> takes no
  such arguments; \<^verbatim>\<open>AttributeError\<close> otherwise).
\<close>

fun value_text :: "pyval \<Rightarrow> py_error + string" where
  "value_text (PBytes b) = Inr (b64encode b)"
| "value_text (PStr s) = Inr s"
| "value_text (PDate d) = Inl TypeError"
| "value_text other = Inl AttributeError"

definition escape_quotes :: "string \<Rightarrow> string" where
  "escape_quotes s = str_replace1 (CHR 0x22) [CHR 0x5C, CHR 0x22] s"

text \<open>Lines 63 to 70: the comment is looked up in the stripped source line.\<close>

definition comment_of :: "string \<Rightarrow> string" where
  "comment_of l =
     (case yaml_comment_regex_search (strip l) of Some m \<Rightarrow> m | None \<Rightarrow> [])"

text \<open>
  The key in the f-string of line 80: a \<^verbatim>\<open>str\<close> is written as it is, any other object
  through Python's \<^verbatim>\<open>str()\<close>, which is the parameter \<open>py_str\<close>.
\<close>

fun format_key :: "(pyval \<Rightarrow> string) \<Rightarrow> pyval \<Rightarrow> string" where
  "format_key py_str (PStr s) = s"
| "format_key py_str other = py_str other"

definition render_item :: "(pyval \<Rightarrow> string) \<Rightarrow> YAMLValue \<Rightarrow> py_error + string" where
  "render_item py_str item =
     (case value_text (val item) of
        Inl e \<Rightarrow> Inl e
      | Inr v \<Rightarrow>
          Inr (format_key py_str (key item) @ '': '' @ [CHR 0x22] @ escape_quotes v
               @ [CHR 0x22] @ comment_of (line item)))"

text \<open>The \<^verbatim>\<open>for item in items\<close> loop of lines 40 to 82, on the list built so far.\<close>

fun build_lines ::
  "(pyval \<Rightarrow> string) \<Rightarrow> string list \<Rightarrow> YAMLValue list \<Rightarrow> py_error + string list" where
  "build_lines py_str acc [] = Inr acc"
| "build_lines py_str acc (item # items) =
     (case render_item py_str item of
        Inl e \<Rightarrow> Inl e
      | Inr l \<Rightarrow> build_lines py_str (pad_lines acc (line_number item) @ [l]) items)"

definition parse_file ::
  "(pyval \<Rightarrow> string) \<Rightarrow> string \<Rightarrow> py_error + pyval \<Rightarrow> py_error + string list" where
  "parse_file py_str content loaded =
     (case sorted_items content loaded of
        Inl e \<Rightarrow> Inl e
      | Inr items \<Rightarrow> build_lines py_str [] items)"

section \<open>The composed nodes and _tag_dict_values\<close>

text \<open>
  A node of \<^verbatim>\<open>yaml.nodes\<close>: its class, its tag, its \<^verbatim>\<open>value\<close> attribute (the text of a
  scalar, the elements of a sequence, the pairs of a mapping), the \<^verbatim>\<open>__line__\<close> attribute
  that the shim adds (absent on a node that the shim has not stamped), the lines of
  \<^verbatim>\<open>start_mark\<close> and \<^verbatim>\<open>end_mark\<close>, and \<^verbatim>\<open>flow_style\<close>. The constructors of the node
  classes do not check what \<^verbatim>\<open>value\<close> holds, so the class and the content are separate
  fields.
\<close>

datatype node_class = ScalarNode | SequenceNode | MappingNode

datatype node =
  Node (node_class: node_class) (tag: string) (node_value: node_content)
       (line_stamp: "nat option") (span: "(nat \<times> nat) option") (flow_style: "bool option")
and node_content =
    Text string
  | Items "node list"
  | Pairs "(node \<times> node) list"

text \<open>\<^verbatim>\<open>s.endswith(suffix)\<close>.\<close>

definition endswith :: "string \<Rightarrow> string \<Rightarrow> bool" where
  "endswith s suffix =
     (length suffix \<le> length s \<and> drop (length s - length suffix) s = suffix)"

text \<open>\<^verbatim>\<open>str(n)\<close> of a natural number: its decimal digits.\<close>

definition digit_char :: "nat \<Rightarrow> char" where
  "digit_char d = ''0123456789'' ! (d mod 10)"

fun str_of_nat :: "nat \<Rightarrow> string" where
  "str_of_nat n =
     (if n < 10 then [digit_char n] else str_of_nat (n div 10) @ [digit_char (n mod 10)])"

declare str_of_nat.simps [simp del]

definition str_tag :: string where
  "str_tag = ''tag:yaml.org,2002:str''"

definition int_tag :: string where
  "int_tag = ''tag:yaml.org,2002:int''"

text \<open>
  Lines 326 to 340. The two scalar nodes are built with the defaults of
  \<^verbatim>\<open>ScalarNode\<close>: no marks, no style, and no \<^verbatim>\<open>__line__\<close>.
\<close>

definition create_key_value_pair_for_mapping_node_value ::
  "string \<Rightarrow> node_content \<Rightarrow> string \<Rightarrow> node \<times> node" where
  "create_key_value_pair_for_mapping_node_value k v t =
     (Node ScalarNode str_tag (Text k) None None None,
      Node ScalarNode t v None None None)"

text \<open>
  Lines 293 to 312: the mapping that takes the place of a value. \<^verbatim>\<open>value.__line__\<close>
  raises \<^verbatim>\<open>AttributeError\<close> on a node without the attribute.
\<close>

definition augmented_string :: "string \<Rightarrow> node \<Rightarrow> node \<Rightarrow> py_error + node" where
  "augmented_string map_tag k v =
     (case line_stamp v of
        None \<Rightarrow> Inl AttributeError
      | Some l \<Rightarrow>
          Inr (Node MappingNode map_tag
                 (Pairs
                    [create_key_value_pair_for_mapping_node_value ''__value__'' (node_value v) (tag v),
                     create_key_value_pair_for_mapping_node_value ''__line__''
                       (Text (str_of_nat l)) int_tag,
                     create_key_value_pair_for_mapping_node_value ''__original_key__''
                       (node_value k) str_tag])
                 None None None))"

text \<open>The loop of lines 285 to 314 over the pairs of the mapping.\<close>

fun tag_pairs :: "string \<Rightarrow> (node \<times> node) list \<Rightarrow> py_error + (node \<times> node) list" where
  "tag_pairs map_tag [] = Inr []"
| "tag_pairs map_tag ((k, v) # rest) =
     (if \<not> (endswith (tag v) '':str'' \<or> endswith (tag v) '':binary'') then
        (case tag_pairs map_tag rest of
           Inl e \<Rightarrow> Inl e
         | Inr new_values \<Rightarrow> Inr ((k, v) # new_values))
      else
        (case augmented_string map_tag k v of
           Inl e \<Rightarrow> Inl e
         | Inr a \<Rightarrow>
             (case tag_pairs map_tag rest of
                Inl e \<Rightarrow> Inl e
              | Inr new_values \<Rightarrow> Inr ((k, a) # new_values))))"

text \<open>
  \<^verbatim>\<open>for key, value in map_node.value\<close> unpacks every element into two names. The
  elements of a mapping's value are pairs. The function is called on every node whose
  tag ends in \<^verbatim>\<open>:map\<close>, whatever its class: the characters of a non-empty scalar text
  do not unpack into two (\<^verbatim>\<open>ValueError\<close>), the nodes of a non-empty sequence do not
  unpack at all (\<^verbatim>\<open>TypeError\<close>). The output is a new \<^verbatim>\<open>MappingNode\<close> with the tag, the
  marks and the flow style of the input and no \<^verbatim>\<open>__line__\<close>.
\<close>

definition tag_dict_values :: "node \<Rightarrow> py_error + node" where
  "tag_dict_values map_node =
     (case (case node_value map_node of
              Pairs kvs \<Rightarrow> tag_pairs (tag map_node) kvs
            | Text s \<Rightarrow> if s = [] then Inr [] else Inl ValueError
            | Items xs \<Rightarrow> if xs = [] then Inr [] else Inl TypeError) of
        Inl e \<Rightarrow> Inl e
      | Inr new_values \<Rightarrow>
          Inr (Node MappingNode (tag map_node) (Pairs new_values) None
                 (span map_node) (flow_style map_node)))"

section \<open>The two shims of YAMLFileParser\<close>

text \<open>
  The state of the PyYAML loader that the shims read: the lines of the parser's stack
  of marks (\<^verbatim>\<open>loader.marks\<close>, the last pushed at the end), the line cursor of the reader
  (\<^verbatim>\<open>loader.line\<close>, counted from 0) and the queue of tokens that the scanner has produced
  and the parser has not taken yet (\<^verbatim>\<open>loader.tokens\<close>). A token is its class and the
  line of its \<^verbatim>\<open>start_mark\<close>.
\<close>

datatype token_class =
    StreamStartToken | StreamEndToken | DocumentStartToken | DocumentEndToken
  | BlockSequenceStartToken | BlockMappingStartToken | BlockEndToken | BlockEntryToken
  | FlowSequenceStartToken | FlowSequenceEndToken
  | FlowMappingStartToken | FlowMappingEndToken | FlowEntryToken
  | KeyToken | ValueToken | AliasToken | AnchorToken | TagToken | ScalarToken
  | DirectiveToken

record token =
  token_class :: token_class
  start_mark_line :: nat

record SafeLoader =
  marks :: "nat list"
  loader_line :: nat
  tokens :: "token list"

record YAMLFileParser =
  loader :: SafeLoader
  is_inline_flow_mapping_key :: bool

text \<open>
  \<^verbatim>\<open>Scanner.peek_token\<close> first lets the scanner fetch the tokens it needs, then returns
  the head of the queue, or \<^verbatim>\<open>None\<close> when the queue is empty. The scanner is the
  parameter \<open>fetch\<close>.
\<close>

definition peek_token :: "(SafeLoader \<Rightarrow> SafeLoader) \<Rightarrow> SafeLoader \<Rightarrow> SafeLoader \<times> token option" where
  "peek_token fetch ld =
     (let ld' = fetch ld
      in (ld', case tokens ld' of [] \<Rightarrow> None | t # rest \<Rightarrow> Some t))"

text \<open>
  Lines 258 to 276. \<open>check_choices\<close> is the \<^verbatim>\<open>for choice in choices\<close> loop with its
  counter \<open>i\<close> and its \<open>result\<close>.
\<close>

fun check_choices :: "token list \<Rightarrow> token_class list \<Rightarrow> nat \<Rightarrow> bool \<Rightarrow> bool" where
  "check_choices toks [] i result = result"
| "check_choices toks (choice # choices) i result =
     (if i < length toks
      then check_choices toks choices (Suc i) (result \<and> token_class (toks ! i) = choice)
      else check_choices toks choices i result)"

definition check_next_tokens_shim :: "SafeLoader \<Rightarrow> token_class list \<Rightarrow> bool" where
  "check_next_tokens_shim ld choices =
     (if tokens ld \<noteq> [] then
        (if choices = [] then True else check_choices (tokens ld) choices 0 True)
      else False)"

text \<open>
  Lines 233 to 256. Python evaluates \<^verbatim>\<open>first and a == b or c\<close> from the left:
  \<^verbatim>\<open>marks[-1]\<close> (\<^verbatim>\<open>IndexError\<close> on an empty stack) and \<^verbatim>\<open>peek_token()\<close> (\<^verbatim>\<open>None\<close> has no
  \<^verbatim>\<open>start_mark\<close>) are evaluated only when \<open>first\<close> holds, and the token check only when
  the first disjunct fails. The call of \<^verbatim>\<open>Parser.parse_flow_mapping_key\<close> that ends the
  shim is the parameter \<open>parse_key\<close>.
\<close>

definition parse_flow_mapping_key_shim ::
  "(SafeLoader \<Rightarrow> SafeLoader) \<Rightarrow> (bool \<Rightarrow> SafeLoader \<Rightarrow> py_error + SafeLoader) \<Rightarrow>
   bool \<Rightarrow> YAMLFileParser \<Rightarrow> py_error + YAMLFileParser" where
  "parse_flow_mapping_key_shim fetch parse_key first p =
     (case
        (if first then
           (case marks (loader p) of
              [] \<Rightarrow> Inl IndexError
            | m # ms \<Rightarrow>
                (case peek_token fetch (loader p) of
                   (ld, None) \<Rightarrow> Inl AttributeError
                 | (ld, Some t) \<Rightarrow>
                     Inr (ld,
                          last (m # ms) = start_mark_line t
                          \<or> check_next_tokens_shim ld [FlowEntryToken, KeyToken])))
         else Inr (loader p, check_next_tokens_shim (loader p) [FlowEntryToken, KeyToken]))
      of
        Inl e \<Rightarrow> Inl e
      | Inr (ld, is_inline_dictionary) \<Rightarrow>
          (case parse_key first ld of
             Inl e \<Rightarrow> Inl e
           | Inr ld' \<Rightarrow>
               Inr \<lparr>loader = ld', is_inline_flow_mapping_key = is_inline_dictionary\<rparr>))"

text \<open>Lines 214 to 218: the line that the next node gets, counted from 0.\<close>

definition node_line :: "YAMLFileParser \<Rightarrow> py_error + nat" where
  "node_line p =
     (if is_inline_flow_mapping_key p then
        (case marks (loader p) of [] \<Rightarrow> Inl IndexError | m # ms \<Rightarrow> Inr (last (m # ms)))
      else Inr (loader_line (loader p)))"

text \<open>
  Lines 209 to 231. \<^verbatim>\<open>Composer.compose_node\<close> is the parameter \<open>compose\<close>: it reads
  events, composes the children through this shim, and so changes the state. (An
  alias makes it return the anchored node object a second time; the model has no
  shared objects, so it speaks of documents without aliases.)
\<close>

definition compose_node_shim ::
  "(YAMLFileParser \<Rightarrow> py_error + YAMLFileParser \<times> node) \<Rightarrow> YAMLFileParser \<Rightarrow>
   py_error + YAMLFileParser \<times> node" where
  "compose_node_shim compose p =
     (case node_line p of
        Inl e \<Rightarrow> Inl e
      | Inr l \<Rightarrow>
          (case compose p of
             Inl e \<Rightarrow> Inl e
           | Inr (p', n) \<Rightarrow>
               (let stamped =
                      Node (node_class n) (tag n) (node_value n) (Some (l + 1)) (span n)
                        (flow_style n)
                in if endswith (tag stamped) '':map'' then
                     (case tag_dict_values stamped of
                        Inl e \<Rightarrow> Inl e
                      | Inr out \<Rightarrow> Inr (p'\<lparr>is_inline_flow_mapping_key := False\<rparr>, out))
                   else Inr (p', stamped))))"

section \<open>The provenance mapping of the specification\<close>

text \<open>
  The three-field mapping in the words of the specification: a mapping (with the tag
  of the mapping it stands in) of exactly the fields \<^verbatim>\<open>__value__\<close>, \<^verbatim>\<open>__line__\<close> and
  \<^verbatim>\<open>__original_key__\<close>, which hold the value with its tag, the decimal text of the line
  as an integer scalar, and the content of the key as a string scalar. It is compared
  with what \<^verbatim>\<open>_tag_dict_values\<close> builds.
\<close>

definition provenance_mapping :: "string \<Rightarrow> node \<Rightarrow> node \<Rightarrow> nat \<Rightarrow> node" where
  "provenance_mapping map_tag k v l =
     Node MappingNode map_tag
       (Pairs
          [(Node ScalarNode ''tag:yaml.org,2002:str'' (Text ''__value__'') None None None,
            Node ScalarNode (tag v) (node_value v) None None None),
           (Node ScalarNode ''tag:yaml.org,2002:str'' (Text ''__line__'') None None None,
            Node ScalarNode ''tag:yaml.org,2002:int'' (Text (str_of_nat l)) None None None),
           (Node ScalarNode ''tag:yaml.org,2002:str'' (Text ''__original_key__'') None None None,
            Node ScalarNode ''tag:yaml.org,2002:str'' (node_value k) None None None)])
       None None None"

section \<open>Loaded objects whose markers are provenance mappings\<close>

text \<open>
  \<open>provenance_ok n kvs\<close>: the dict with the items \<open>kvs\<close> has the three keys of a
  provenance mapping, and its \<^verbatim>\<open>__line__\<close> is an integer between 1 and \<open>n\<close>.
  \<open>markers_ok n v\<close>: in the object \<open>v\<close>, as far as the traversal descends, every dict
  with the key \<^verbatim>\<open>__line__\<close> is such a mapping, no list has the element \<^verbatim>\<open>__line__\<close> and
  no \<^verbatim>\<open>str\<close> contains it.
\<close>

fun provenance_ok :: "nat \<Rightarrow> (pyval \<times> pyval) list \<Rightarrow> bool" where
  "provenance_ok n kvs =
     (case (map_of kvs (PStr ''__original_key__''), map_of kvs (PStr ''__value__''),
            map_of kvs (PStr ''__line__'')) of
        (Some k, Some v, Some (PInt i)) \<Rightarrow> 1 \<le> i \<and> i \<le> int n
      | other \<Rightarrow> False)"

fun markers_ok :: "nat \<Rightarrow> pyval \<Rightarrow> bool" where
  "markers_ok n (PDict kvs) =
     (if PStr ''__line__'' \<in> set (map fst kvs) then provenance_ok n kvs
      else list_all (\<lambda>kv. markers_ok n (snd kv)) kvs)"
| "markers_ok n (PList xs) = (PStr ''__line__'' \<notin> set xs \<and> list_all (markers_ok n) xs)"
| "markers_ok n (PStr s) = (\<not> str_contains ''__line__'' s)"
| "markers_ok n other = True"

section \<open>Facts about the string operations\<close>

lemma str_replace1_absent: "old \<notin> set s \<Longrightarrow> str_replace1 old new s = s"
  by (induction s) auto

lemma length_b64_alphabet: "length b64_alphabet = 64"
  by (simp add: b64_alphabet_def)

lemma b64_char_in_alphabet: "b64_char n \<in> set b64_alphabet"
  unfolding b64_char_def by (rule nth_mem) (simp add: length_b64_alphabet)

lemma quote_not_in_alphabet: "CHR 0x22 \<notin> set b64_alphabet"
  by (simp add: b64_alphabet_def)

lemma b64_char_not_quote: "b64_char n \<noteq> CHR 0x22"
  using b64_char_in_alphabet [of n] quote_not_in_alphabet by metis

lemma b64encode_no_quote: "CHR 0x22 \<notin> set (b64encode b)"
  by (induction b rule: b64encode.induct)
     (simp_all add: Let_def b64_char_not_quote b64_char_not_quote [symmetric])

lemma escape_quotes_b64encode: "escape_quotes (b64encode b) = b64encode b"
  by (simp add: escape_quotes_def str_replace1_absent b64encode_no_quote)

text \<open>Four characters of base64 text for every three bytes, the last group padded.\<close>

lemma length_b64encode: "length (b64encode b) = 4 * ((length b + 2) div 3)"
proof (induction b rule: b64encode.induct)
  case (4 a b c rest)
  have "(length rest + 5) div 3 = Suc ((length rest + 2) div 3)" by arith
  with 4 show ?case by (simp add: Let_def add.commute)
qed (simp_all add: Let_def)

text \<open>The padding loop appends as many empty strings as are missing.\<close>

lemma pad_lines_replicate:
  "pad_lines acc n = acc @ replicate (nat (n - 1 - int (length acc))) []"
proof (induction acc n rule: pad_lines.induct)
  case (1 acc n)
  show ?case
  proof (cases "int (length acc) < n - 1")
    case True
    then have "nat (n - 1 - int (length acc)) = Suc (nat (n - 1 - int (length (acc @ [[]]))))"
      by simp
    with True "1.IH" show ?thesis
      by (subst pad_lines.simps) (simp add: replicate_app_Cons_same)
  next
    case False
    then show ?thesis by (subst pad_lines.simps) simp
  qed
qed

text \<open>After the replacement every double quote stands behind a backslash.\<close>

lemma escape_quotes_escaped:
  "i < length (escape_quotes s) \<Longrightarrow> escape_quotes s ! i = CHR 0x22 \<Longrightarrow>
   0 < i \<and> escape_quotes s ! (i - 1) = CHR 0x5C"
  unfolding escape_quotes_def
proof (induction s arbitrary: i)
  case Nil
  then show ?case by simp
next
  case (Cons c s)
  show ?case
  proof (cases "c = CHR 0x22")
    case True
    with Cons.prems Cons.IH [of "i - 2"] show ?thesis
      by (cases i; cases "i - 1") (auto simp: nth_Cons')
  next
    case False
    with Cons.prems Cons.IH [of "i - 1"] show ?thesis
      by (cases i) (auto simp: nth_Cons')
  qed
qed

section \<open>The failure boundary\<close>


section \<open>Binary values\<close>

lemma comment_of_binary_example: "comment_of ''data: !!binary aGVsbG8='' = []"
  by (simp add: comment_of_def strip_def is_space_def match_at_def)


section \<open>The rendered lines\<close>

lemma escape_quotes_concat:
  "escape_quotes s = concat (map (\<lambda>c. if c = CHR 0x22 then [CHR 0x5C, CHR 0x22] else [c]) s)"
  unfolding escape_quotes_def by (induction s) simp_all

lemma render_item_Inr:
  "render_item py_str item = Inr l \<longleftrightarrow>
     (\<exists>v. value_text (val item) = Inr v
          \<and> l = format_key py_str (key item) @ '': '' @ [CHR 0x22] @ escape_quotes v
                 @ [CHR 0x22] @ comment_of (line item))"
  by (auto simp: render_item_def split: sum.splits)

lemma build_lines_members:
  "build_lines py_str acc items = Inr out \<Longrightarrow>
     set acc \<subseteq> set out
     \<and> (\<forall>item\<in>set items. \<exists>l. render_item py_str item = Inr l \<and> l \<in> set out)
     \<and> (\<forall>l\<in>set out. l \<in> set acc \<or> l = [] \<or> (\<exists>item\<in>set items. render_item py_str item = Inr l))"
proof (induction items arbitrary: acc)
  case Nil
  then show ?case by auto
next
  case (Cons item items)
  from Cons.prems obtain l where l: "render_item py_str item = Inr l"
    and rest: "build_lines py_str (pad_lines acc (line_number item) @ [l]) items = Inr out"
    by (auto split: sum.splits)
  let ?acc = "pad_lines acc (line_number item) @ [l]"
  have acc: "set ?acc \<subseteq> set acc \<union> {[], l}" and acc': "set acc \<union> {l} \<subseteq> set ?acc"
    by (auto simp: pad_lines_replicate)
  from Cons.IH [OF rest] have
    1: "set ?acc \<subseteq> set out" and
    2: "\<forall>item\<in>set items. \<exists>l. render_item py_str item = Inr l \<and> l \<in> set out" and
    3: "\<forall>l\<in>set out. l \<in> set ?acc \<or> l = [] \<or> (\<exists>item\<in>set items. render_item py_str item = Inr l)"
    by blast+
  have "set acc \<subseteq> set out" using 1 acc' by blast
  moreover have "\<forall>it\<in>set (item # items). \<exists>l. render_item py_str it = Inr l \<and> l \<in> set out"
    using 1 2 l acc' by auto
  moreover have "\<forall>l'\<in>set out. l' \<in> set acc \<or> l' = [] \<or> (\<exists>it\<in>set (item # items). render_item py_str it = Inr l')"
  proof
    fix l' assume "l' \<in> set out"
    with 3 consider "l' \<in> set ?acc" | "l' = []" | "\<exists>it\<in>set items. render_item py_str it = Inr l'"
      by blast
    then show "l' \<in> set acc \<or> l' = [] \<or> (\<exists>it\<in>set (item # items). render_item py_str it = Inr l')"
    proof cases
      case 1
      with acc have "l' \<in> set acc \<or> l' = [] \<or> l' = l" by blast
      with l show ?thesis by auto
    qed auto
  qed
  ultimately show ?case by blast
qed



section \<open>The order of the values\<close>

text \<open>
  Claim C5. The values that the reconstruction loop consumes are the values that the
  breadth-first iteration yields, put in ascending order of their line numbers by the
  \<^verbatim>\<open>sorted\<close> call of line 36: the same values, each as often as it was yielded.
\<close>

theorem items_sorted_by_line_number:
  assumes "sorted_items doc loaded = Inr items"
  shows "sorted (map line_number items)
     \<and> (\<exists>data raw. loaded = Inr data \<and> yaml_iter (splitlines doc) [data] = Inr raw
            \<and> items = sort_key line_number raw \<and> mset items = mset raw)
     \<and> parse_file py_str doc loaded = build_lines py_str [] items"
proof -
  from assms obtain data raw where d: "loaded = Inr data"
    and r: "yaml_iter (splitlines doc) [data] = Inr raw"
    and i: "items = sort_key line_number raw"
    by (auto simp: sorted_items_def split: sum.splits if_splits)
  have "sorted (map line_number items)" using i by simp
  moreover have "mset items = mset raw" using i by simp
  moreover have "parse_file py_str doc loaded = build_lines py_str [] items"
    using assms by (simp add: parse_file_def)
  ultimately show ?thesis using d r i by blast
qed

text \<open>
  The witness is the document

  \<^verbatim>\<open>a:\<close>\<^verbatim>\<open>  x: s1\<close>\<^verbatim>\<open>b: s2\<close> (three lines),

  in which the traversal reaches \<^verbatim>\<open>b\<close> (line 3) before \<^verbatim>\<open>x\<close> (line 2): the order of
  the traversal is not the order of the lines, the sort makes it so.
\<close>

theorem items_sorted_by_line_number_witness:
  "sorted_items (''a:'' @ [CHR 0x0A] @ ''  x: s1'' @ [CHR 0x0A] @ ''b: s2'')
       (Inr (PDict [(PStr ''a'', PDict [(PStr ''x'',
                   PDict [(PStr ''__value__'', PStr ''s1''), (PStr ''__line__'', PInt 2),
                          (PStr ''__original_key__'', PStr ''x'')])]),
                    (PStr ''b'',
                   PDict [(PStr ''__value__'', PStr ''s2''), (PStr ''__line__'', PInt 3),
                          (PStr ''__original_key__'', PStr ''b'')])]))
     = Inr [\<lparr>key = PStr ''x'', val = PStr ''s1'', line_number = 2, line = ''  x: s1''\<rparr>,
            \<lparr>key = PStr ''b'', val = PStr ''s2'', line_number = 3, line = ''b: s2''\<rparr>]
   \<and> yaml_iter (splitlines (''a:'' @ [CHR 0x0A] @ ''  x: s1'' @ [CHR 0x0A] @ ''b: s2''))
       [PDict [(PStr ''a'', PDict [(PStr ''x'',
                   PDict [(PStr ''__value__'', PStr ''s1''), (PStr ''__line__'', PInt 2),
                          (PStr ''__original_key__'', PStr ''x'')])]),
                    (PStr ''b'',
                   PDict [(PStr ''__value__'', PStr ''s2''), (PStr ''__line__'', PInt 3),
                          (PStr ''__original_key__'', PStr ''b'')])]]
     = Inr [\<lparr>key = PStr ''b'', val = PStr ''s2'', line_number = 3, line = ''b: s2''\<rparr>,
            \<lparr>key = PStr ''x'', val = PStr ''s1'', line_number = 2, line = ''  x: s1''\<rparr>]
   \<and> sorted (map line_number
         [\<lparr>key = PStr ''x'', val = PStr ''s1'', line_number = 2, line = ''  x: s1''\<rparr>,
          \<lparr>key = PStr ''b'', val = PStr ''s2'', line_number = 3, line = ''b: s2''\<rparr>])"
proof -
  have h: "sorted_items (''a:'' @ [CHR 0x0A] @ ''  x: s1'' @ [CHR 0x0A] @ ''b: s2'')
       (Inr (PDict [(PStr ''a'', PDict [(PStr ''x'',
                   PDict [(PStr ''__value__'', PStr ''s1''), (PStr ''__line__'', PInt 2),
                          (PStr ''__original_key__'', PStr ''x'')])]),
                    (PStr ''b'',
                   PDict [(PStr ''__value__'', PStr ''s2''), (PStr ''__line__'', PInt 3),
                          (PStr ''__original_key__'', PStr ''b'')])]))
     = Inr [\<lparr>key = PStr ''x'', val = PStr ''s1'', line_number = 2, line = ''  x: s1''\<rparr>,
            \<lparr>key = PStr ''b'', val = PStr ''s2'', line_number = 3, line = ''b: s2''\<rparr>]"
    by (simp add: sorted_items_def splitlines_def is_linebreak_def make_value_def list_get_def)
  have t: "yaml_iter (splitlines (''a:'' @ [CHR 0x0A] @ ''  x: s1'' @ [CHR 0x0A] @ ''b: s2''))
       [PDict [(PStr ''a'', PDict [(PStr ''x'',
                   PDict [(PStr ''__value__'', PStr ''s1''), (PStr ''__line__'', PInt 2),
                          (PStr ''__original_key__'', PStr ''x'')])]),
                    (PStr ''b'',
                   PDict [(PStr ''__value__'', PStr ''s2''), (PStr ''__line__'', PInt 3),
                          (PStr ''__original_key__'', PStr ''b'')])]]
     = Inr [\<lparr>key = PStr ''b'', val = PStr ''s2'', line_number = 3, line = ''b: s2''\<rparr>,
            \<lparr>key = PStr ''x'', val = PStr ''s1'', line_number = 2, line = ''  x: s1''\<rparr>]"
    by (simp add: splitlines_def is_linebreak_def make_value_def list_get_def)
  from items_sorted_by_line_number [OF h] have
    "sorted (map line_number
         [\<lparr>key = PStr ''x'', val = PStr ''s1'', line_number = 2, line = ''  x: s1''\<rparr>,
          \<lparr>key = PStr ''b'', val = PStr ''s2'', line_number = 3, line = ''b: s2''\<rparr>])"
    by (rule conjunct1)
  with h t show ?thesis by (intro conjI)
qed

section \<open>The layout of the output\<close>

lemma length_pad_lines:
  "int (length acc) < n \<Longrightarrow> length (pad_lines acc n @ [l]) = nat n"
  by (simp add: pad_lines_replicate)

lemma nth_pad_lines_last:
  "int (length acc) < n \<Longrightarrow> (pad_lines acc n @ [l]) ! nat (n - 1) = l"
proof -
  assume a: "int (length acc) < n"
  then have "length (pad_lines acc n) = nat (n - 1)"
    by (simp add: pad_lines_replicate)
  then show ?thesis by (metis nth_append_length)
qed

lemma nth_pad_lines_gap:
  assumes "int (length acc) < n" and "length acc \<le> i" and "i < nat (n - 1)"
  shows "(pad_lines acc n @ [l]) ! i = []"
proof -
  have "i - length acc < nat (n - 1 - int (length acc))" using assms by linarith
  with assms show ?thesis by (simp add: pad_lines_replicate nth_append)
qed

lemma take_pad_lines:
  "take (length acc) (pad_lines acc n @ [l]) = acc"
  by (simp add: pad_lines_replicate)

lemma build_lines_layout:
  assumes "sorted_wrt (<) (map line_number items)"
    and "\<forall>it\<in>set items. int (length acc) < line_number it"
    and "\<forall>it\<in>set items. \<exists>l. render_item py_str it = Inr l"
  shows "\<exists>out. build_lines py_str acc items = Inr out
     \<and> take (length acc) out = acc
     \<and> length out = (if items = [] then length acc else nat (line_number (last items)))
     \<and> (\<forall>it\<in>set items. render_item py_str it = Inr (out ! nat (line_number it - 1)))
     \<and> (\<forall>i. length acc \<le> i \<and> i < length out \<and> int i + 1 \<notin> line_number ` set items
            \<longrightarrow> out ! i = [])"
  using assms
proof (induction items arbitrary: acc)
  case Nil
  then show ?case by auto
next
  case (Cons item items)
  let ?n = "line_number item"
  from Cons.prems(3) obtain l where l: "render_item py_str item = Inr l" by auto
  let ?acc = "pad_lines acc ?n @ [l]"
  have n: "int (length acc) < ?n" using Cons.prems(2) by simp
  have len: "length ?acc = nat ?n" using n by (rule length_pad_lines)
  have s: "sorted_wrt (<) (map line_number items)" using Cons.prems(1) by simp
  have lt: "\<forall>it\<in>set items. int (length ?acc) < line_number it"
    using Cons.prems(1) n len by auto
  have rn: "\<forall>it\<in>set items. \<exists>l. render_item py_str it = Inr l" using Cons.prems(3) by simp
  from Cons.IH [OF s lt rn] obtain out where
    b: "build_lines py_str ?acc items = Inr out" and
    t: "take (length ?acc) out = ?acc" and
    ln: "length out = (if items = [] then length ?acc else nat (line_number (last items)))" and
    its: "\<forall>it\<in>set items. render_item py_str it = Inr (out ! nat (line_number it - 1))" and
    gaps: "\<forall>i. length ?acc \<le> i \<and> i < length out \<and> int i + 1 \<notin> line_number ` set items
            \<longrightarrow> out ! i = []"
    by blast
  have le: "length ?acc \<le> length out"
    using t by (metis length_take min.cobounded1)
  have pre: "out ! i = ?acc ! i" if "i < nat ?n" for i
    using t len that by (metis nth_take)
  have 1: "build_lines py_str acc (item # items) = Inr out" using l b by simp
  have 2: "take (length acc) out = acc"
  proof -
    have "length acc \<le> length ?acc" using n len by linarith
    then have "take (length acc) out = take (length acc) (take (length ?acc) out)"
      by (simp add: min_def)
    also have "\<dots> = acc" unfolding t by (rule take_pad_lines)
    finally show ?thesis .
  qed
  have 3: "length out = (if item # items = [] then length acc else nat (line_number (last (item # items))))"
    using ln len by simp
  have 4: "\<forall>it\<in>set (item # items). render_item py_str it = Inr (out ! nat (line_number it - 1))"
  proof -
    have "nat (?n - 1) < nat ?n" using n by simp
    then have "out ! nat (?n - 1) = ?acc ! nat (?n - 1)" by (rule pre)
    also have "\<dots> = l" using n by (rule nth_pad_lines_last)
    finally show ?thesis using l its by simp
  qed
  have 5: "\<forall>i. length acc \<le> i \<and> i < length out \<and> int i + 1 \<notin> line_number ` set (item # items)
            \<longrightarrow> out ! i = []"
  proof (intro allI impI)
    fix i
    assume a: "length acc \<le> i \<and> i < length out \<and> int i + 1 \<notin> line_number ` set (item # items)"
    then have ne: "int i + 1 \<noteq> ?n" and ni: "int i + 1 \<notin> line_number ` set items" by auto
    show "out ! i = []"
    proof (cases "i < nat ?n")
      case True
      with ne have i: "i < nat (?n - 1)" by linarith
      have "out ! i = ?acc ! i" using True by (rule pre)
      also have "\<dots> = []" using n a i by (intro nth_pad_lines_gap) auto
      finally show ?thesis .
    next
      case False
      with len have "length ?acc \<le> i" by simp
      with gaps a ni show ?thesis by blast
    qed
  qed
  from 1 2 3 4 5 show ?case by blast
qed


lemma sorted_map_le_last:
  "sorted (map f xs) \<Longrightarrow> x \<in> set xs \<Longrightarrow> f x \<le> f (last xs)"
  by (induction xs) (auto split: if_splits)

lemma Max_line_number_last:
  assumes "sorted (map line_number items)" and "items \<noteq> []"
    and "\<forall>it\<in>set items. 1 \<le> line_number it"
  shows "Max (insert 0 (line_number ` set items)) = line_number (last items)"
proof (rule Max_eqI)
  show "finite (insert 0 (line_number ` set items))" by simp
next
  fix y assume "y \<in> insert 0 (line_number ` set items)"
  then consider "y = 0" | it where "it \<in> set items" "y = line_number it" by auto
  then show "y \<le> line_number (last items)"
  proof cases
    case 1
    have "last items \<in> set items" using assms(2) by simp
    with assms(3) 1 show ?thesis by force
  next
    case 2
    with assms(1) show ?thesis by (simp add: sorted_map_le_last)
  qed
next
  have "last items \<in> set items" using assms(2) by simp
  then show "line_number (last items) \<in> insert 0 (line_number ` set items)" by simp
qed

text \<open>
  Claim C1, as the code has it. When the values of a document have \<^verbatim>\<open>str\<close> or \<^verbatim>\<open>bytes\<close>
  values and pairwise distinct line numbers, all at least 1, \<^verbatim>\<open>parse_file\<close> returns a
  list with as many entries as the largest line number of a value (0 without values);
  the entry at index \<open>L - 1\<close> is the line rendered for the value of line \<open>L\<close>: the key,
  a colon and a space, the text of the value with its double quotes escaped between
  double quotes, and the comment; every index without a value holds the empty string.
  The length follows the last value, not the number of lines of the document.
\<close>

theorem parse_file_line_layout:
  assumes "sorted_items doc loaded = Inr items"
    and "distinct (map line_number items)"
    and "\<forall>it\<in>set items. 1 \<le> line_number it"
    and "\<forall>it\<in>set items. \<exists>v. value_text (val it) = Inr v"
  shows "\<exists>out. parse_file py_str doc loaded = Inr out
     \<and> int (length out) = Max (insert 0 (line_number ` set items))
     \<and> (\<forall>it\<in>set items. \<exists>v. value_text (val it) = Inr v
            \<and> out ! nat (line_number it - 1)
                = format_key py_str (key it) @ '': '' @ [CHR 0x22] @ escape_quotes v
                  @ [CHR 0x22] @ comment_of (line it))
     \<and> (\<forall>i<length out. int i + 1 \<notin> line_number ` set items \<longrightarrow> out ! i = [])"
proof -
  have srt: "sorted (map line_number items)"
    using assms(1) by (auto simp: sorted_items_def split: sum.splits if_splits)
  with assms(2) have strict: "sorted_wrt (<) (map line_number items)"
    by (simp add: strict_sorted_iff)
  have pos: "\<forall>it\<in>set items. int (length ([] :: string list)) < line_number it"
    using assms(3) by force
  have rn: "\<forall>it\<in>set items. \<exists>l. render_item py_str it = Inr l"
    using assms(4) by (simp add: render_item_Inr)
  from build_lines_layout [OF strict pos rn] obtain out where
    b: "build_lines py_str [] items = Inr out" and
    ln: "length out = (if items = [] then 0 else nat (line_number (last items)))" and
    its: "\<forall>it\<in>set items. render_item py_str it = Inr (out ! nat (line_number it - 1))" and
    gaps: "\<forall>i. i < length out \<and> int i + 1 \<notin> line_number ` set items \<longrightarrow> out ! i = []"
    by auto
  have 1: "parse_file py_str doc loaded = Inr out"
    using assms(1) b by (simp add: parse_file_def)
  have 2: "int (length out) = Max (insert 0 (line_number ` set items))"
  proof (cases "items = []")
    case True
    with ln show ?thesis by simp
  next
    case False
    then have "last items \<in> set items" by simp
    with assms(3) have "1 \<le> line_number (last items)" by blast
    with ln False Max_line_number_last [OF srt False assms(3)] show ?thesis by simp
  qed
  have 3: "\<forall>it\<in>set items. \<exists>v. value_text (val it) = Inr v
            \<and> out ! nat (line_number it - 1)
                = format_key py_str (key it) @ '': '' @ [CHR 0x22] @ escape_quotes v
                  @ [CHR 0x22] @ comment_of (line it)"
    using its by (simp add: render_item_Inr)
  have 4: "\<forall>i<length out. int i + 1 \<notin> line_number ` set items \<longrightarrow> out ! i = []"
    using gaps by blast
  from 1 2 3 4 show ?thesis by blast
qed

theorem parse_file_line_layout_witness:
  "sorted_items (''a: x'' @ [CHR 0x0A, CHR 0x0A] @ ''b: y'')
       (Inr (PDict [(PStr ''a'',
                     PDict [(PStr ''__value__'', PStr ''x''), (PStr ''__line__'', PInt 1),
                            (PStr ''__original_key__'', PStr ''a'')]),
                    (PStr ''b'',
                     PDict [(PStr ''__value__'', PStr ''y''), (PStr ''__line__'', PInt 3),
                            (PStr ''__original_key__'', PStr ''b'')])]))
     = Inr [\<lparr>key = PStr ''a'', val = PStr ''x'', line_number = 1, line = ''a: x''\<rparr>,
            \<lparr>key = PStr ''b'', val = PStr ''y'', line_number = 3, line = ''b: y''\<rparr>]
   \<and> parse_file (\<lambda>v. []) (''a: x'' @ [CHR 0x0A, CHR 0x0A] @ ''b: y'')
       (Inr (PDict [(PStr ''a'',
                     PDict [(PStr ''__value__'', PStr ''x''), (PStr ''__line__'', PInt 1),
                            (PStr ''__original_key__'', PStr ''a'')]),
                    (PStr ''b'',
                     PDict [(PStr ''__value__'', PStr ''y''), (PStr ''__line__'', PInt 3),
                            (PStr ''__original_key__'', PStr ''b'')])]))
     = Inr [''a: '' @ [CHR 0x22] @ ''x'' @ [CHR 0x22], [],
            ''b: '' @ [CHR 0x22] @ ''y'' @ [CHR 0x22]]
   \<and> (\<exists>out. parse_file (\<lambda>v. []) (''a: x'' @ [CHR 0x0A, CHR 0x0A] @ ''b: y'')
       (Inr (PDict [(PStr ''a'',
                     PDict [(PStr ''__value__'', PStr ''x''), (PStr ''__line__'', PInt 1),
                            (PStr ''__original_key__'', PStr ''a'')]),
                    (PStr ''b'',
                     PDict [(PStr ''__value__'', PStr ''y''), (PStr ''__line__'', PInt 3),
                            (PStr ''__original_key__'', PStr ''b'')])])) = Inr out
          \<and> int (length out) = 3)"
proof -
  let ?a = "\<lparr>key = PStr ''a'', val = PStr ''x'', line_number = 1, line = ''a: x''\<rparr>"
  let ?b = "\<lparr>key = PStr ''b'', val = PStr ''y'', line_number = 3, line = ''b: y''\<rparr>"
  let ?doc = "''a: x'' @ [CHR 0x0A, CHR 0x0A] @ ''b: y''"
  let ?loaded = "Inr (PDict [(PStr ''a'',
                     PDict [(PStr ''__value__'', PStr ''x''), (PStr ''__line__'', PInt 1),
                            (PStr ''__original_key__'', PStr ''a'')]),
                    (PStr ''b'',
                     PDict [(PStr ''__value__'', PStr ''y''), (PStr ''__line__'', PInt 3),
                            (PStr ''__original_key__'', PStr ''b'')])]) :: py_error + pyval"
  have h1: "sorted_items ?doc ?loaded = Inr [?a, ?b]"
    by (simp add: sorted_items_def splitlines_def is_linebreak_def make_value_def
          list_get_def)
  have h2: "distinct (map line_number [?a, ?b])" by simp
  have h3: "\<forall>it\<in>set [?a, ?b]. 1 \<le> line_number it" by simp
  have h4: "\<forall>it\<in>set [?a, ?b]. \<exists>v. value_text (val it) = Inr v" by simp
  have p: "parse_file (\<lambda>v. []) ?doc ?loaded
     = Inr [''a: '' @ [CHR 0x22] @ ''x'' @ [CHR 0x22], [],
            ''b: '' @ [CHR 0x22] @ ''y'' @ [CHR 0x22]]"
    by (simp add: parse_file_def sorted_items_def splitlines_def is_linebreak_def
          make_value_def list_get_def render_item_def escape_quotes_def pad_lines_replicate
          comment_of_def strip_def is_space_def match_at_def comment_class_def)
  from parse_file_line_layout [OF h1 h2 h3 h4, of "\<lambda>v. []"] obtain out where
    "parse_file (\<lambda>v. []) ?doc ?loaded = Inr out"
    "int (length out) = Max (insert 0 (line_number ` set [?a, ?b]))"
    by blast
  then have "\<exists>out. parse_file (\<lambda>v. []) ?doc ?loaded = Inr out \<and> int (length out) = 3"
    by simp
  with h1 p show ?thesis by (intro conjI)
qed

text \<open>
  The claim as the specification words it asks for at least as many entries as the
  document has lines. The document

  \<^verbatim>\<open>a: b\<close> \<^verbatim>\<open># c\<close> (two lines)

  has its only value on line 1, and the list returned has one entry.
\<close>

theorem parse_file_shorter_than_document:
  "length (splitlines (''a: b'' @ [CHR 0x0A] @ ''# c'')) = 2
   \<and> parse_file (\<lambda>v. []) (''a: b'' @ [CHR 0x0A] @ ''# c'')
        (Inr (PDict [(PStr ''a'',
                      PDict [(PStr ''__value__'', PStr ''b''), (PStr ''__line__'', PInt 1),
                             (PStr ''__original_key__'', PStr ''a'')])]))
       = Inr [''a: '' @ [CHR 0x22] @ ''b'' @ [CHR 0x22]]
   \<and> \<not> (length (splitlines (''a: b'' @ [CHR 0x0A] @ ''# c''))
          \<le> length [''a: '' @ [CHR 0x22] @ ''b'' @ [CHR 0x22]])"
  by (simp add: parse_file_def sorted_items_def splitlines_def is_linebreak_def
        make_value_def list_get_def render_item_def escape_quotes_def pad_lines_replicate
        comment_of_def strip_def is_space_def match_at_def comment_class_def)

section \<open>The line numbers of the yielded values\<close>

lemma queue_size_children: "queue_size (children item) \<le> size item"
proof (cases item)
  case (PDict kvs)
  then show ?thesis using queue_size_values [of kvs] by simp
next
  case (PList xs)
  then show ?thesis by (simp add: queue_size_elements)
qed (simp_all add: queue_size_def)

lemma provenance_make_value:
  assumes "provenance_ok (length src) kvs"
  shows "\<exists>v. make_value src (PDict kvs) = Inr v \<and> 1 \<le> line_number v
           \<and> line_number v \<le> int (length src) \<and> line v = src ! nat (line_number v - 1)"
proof -
  from assms obtain k v i where
    k: "map_of kvs (PStr ''__original_key__'') = Some k" and
    v: "map_of kvs (PStr ''__value__'') = Some v" and
    i: "map_of kvs (PStr ''__line__'') = Some (PInt i)" and
    r: "1 \<le> i" "i \<le> int (length src)"
    by (auto split: option.splits pyval.splits)
  have "list_get src (i - 1) = Inr (src ! nat (i - 1))"
    using r by (simp add: list_get_def)
  with k v i have "make_value src (PDict kvs)
      = Inr \<lparr>key = k, val = v, line_number = i, line = src ! nat (i - 1)\<rparr>"
    by (simp add: make_value_def)
  with r show ?thesis by simp
qed

lemma markers_make_value:
  assumes "markers_ok (length src) item" and "py_in ''__line__'' item = Inr True"
  shows "\<exists>v. make_value src item = Inr v \<and> 1 \<le> line_number v
           \<and> line_number v \<le> int (length src) \<and> line v = src ! nat (line_number v - 1)"
proof (cases item)
  case (PDict kvs)
  with assms have "provenance_ok (length src) kvs" by (simp del: provenance_ok.simps)
  with PDict show ?thesis by (simp add: provenance_make_value del: provenance_ok.simps)
qed (insert assms, simp_all)

lemma markers_children:
  assumes "markers_ok n item" and "py_in ''__line__'' item = Inr False"
  shows "list_all (markers_ok n) (children item)"
proof (cases item)
  case (PDict kvs)
  with assms show ?thesis by (simp add: list_all_iff del: provenance_ok.simps)
qed (insert assms, simp_all)

lemma yaml_iter_in_range:
  "list_all (markers_ok (length src)) q \<Longrightarrow>
   \<exists>items. yaml_iter src q = Inr items
      \<and> (\<forall>it\<in>set items. 1 \<le> line_number it \<and> line_number it \<le> int (length src)
             \<and> line it = src ! nat (line_number it - 1))"
proof (induction q rule: measure_induct_rule [of queue_size])
  case (less q)
  show ?case
  proof (cases q)
    case Nil
    then show ?thesis by simp
  next
    case (Cons item rest)
    from less.prems Cons have mi: "markers_ok (length src) item"
      and mr: "list_all (markers_ok (length src)) rest" by simp_all
    have "queue_size rest < queue_size q" using Cons by (simp add: queue_size_Cons)
    from less.IH [OF this mr] obtain items where
      rest: "yaml_iter src rest = Inr items" and
      ok: "\<forall>it\<in>set items. 1 \<le> line_number it \<and> line_number it \<le> int (length src)
             \<and> line it = src ! nat (line_number it - 1)"
      by blast
    show ?thesis
    proof (cases "truthy item")
      case False
      with Cons rest ok show ?thesis by simp
    next
      case True
      show ?thesis
      proof (cases "py_in ''__line__'' item")
        case (Inl e)
        with Cons True rest ok show ?thesis by simp
      next
        case (Inr b)
        show ?thesis
        proof (cases b)
          case True
          with Inr have m: "py_in ''__line__'' item = Inr True" by simp
          from markers_make_value [OF mi m] obtain v where
            v: "make_value src item = Inr v" and
            vok: "1 \<le> line_number v \<and> line_number v \<le> int (length src)
                   \<and> line v = src ! nat (line_number v - 1)"
            by blast
          from Cons \<open>truthy item\<close> m v rest have "yaml_iter src q = Inr (v # items)" by simp
          with vok ok show ?thesis by simp
        next
          case False
          with Inr have m: "py_in ''__line__'' item = Inr False" by simp
          show ?thesis
          proof (cases "\<exists>s. item = PStr s")
            case True
            with Cons \<open>truthy item\<close> m rest ok show ?thesis by auto
          next
            case False
            have "queue_size (rest @ children item) < queue_size q"
              using Cons queue_size_children [of item]
              by (simp add: queue_size_Cons queue_size_append)
            moreover have "list_all (markers_ok (length src)) (rest @ children item)"
              using mr markers_children [OF mi m] by simp
            ultimately obtain items' where
              "yaml_iter src (rest @ children item) = Inr items'" and
              "\<forall>it\<in>set items'. 1 \<le> line_number it \<and> line_number it \<le> int (length src)
                 \<and> line it = src ! nat (line_number it - 1)"
              using less.IH by blast
            moreover have "yaml_iter src q = yaml_iter src (rest @ children item)"
              using Cons \<open>truthy item\<close> m False by (cases item) simp_all
            ultimately show ?thesis by simp
          qed
        qed
      qed
    qed
  qed
qed




section \<open>Two inputs on which the code leaves its documented behaviour\<close>

text \<open>
  Claim C8. The docstring of \<^verbatim>\<open>_yaml_comment_regex\<close> says that everything after the
  comment character is the comment of the line. The class \<^verbatim>\<open>[\S ]\<close> of the pattern
  leaves out every whitespace character but the space, so a comment with a tab in it
  is cut at the tab: the line \<^verbatim>\<open>key: value # secret<TAB>here\<close> gives the comment
  \<^verbatim>\<open> # secret\<close>. On the line of the specification, \<^verbatim>\<open>key: value # secret here\<close>, the
  comment is \<^verbatim>\<open> # secret here\<close>, and a \<^verbatim>\<open>#\<close> that follows no whitespace starts no
  comment.
\<close>

theorem comment_cut_at_tab:
  "comment_of (''key: value # secret'' @ [CHR 0x09] @ ''here'') = '' # secret''
   \<and> render_item (\<lambda>v. [])
         \<lparr>key = PStr ''key'', val = PStr ''value'', line_number = 1,
          line = ''key: value # secret'' @ [CHR 0x09] @ ''here''\<rparr>
       = Inr (''key: '' @ [CHR 0x22] @ ''value'' @ [CHR 0x22] @ '' # secret'')
   \<and> comment_of ''key: value # secret here'' = '' # secret here''
   \<and> comment_of ''key: value#not a comment'' = []"
  by (simp add: render_item_def escape_quotes_def comment_of_def strip_def is_space_def
        match_at_def comment_class_def)

text \<open>
  Claim C9. The loop means to skip every \<^verbatim>\<open>str\<close> (\<^verbatim>\<open>if isinstance(item, str): continue\<close>)
  and every value that cannot hold the marker (\<^verbatim>\<open>except TypeError: continue\<close>), but
  the test for a \<^verbatim>\<open>str\<close> stands inside the branch \<^verbatim>\<open>'__line__' not in item\<close>, which on a
  \<^verbatim>\<open>str\<close> is a substring test. A sequence element that contains \<^verbatim>\<open>__line__\<close> passes
  for a provenance mapping, and the subscript \<^verbatim>\<open>item['__original_key__']\<close>, outside the
  \<^verbatim>\<open>try\<close>, raises \<^verbatim>\<open>TypeError\<close> out of \<^verbatim>\<open>parse_file\<close>. So do a list with the element
  \<^verbatim>\<open>__line__\<close> and (with \<^verbatim>\<open>KeyError\<close>) a mapping with the key \<^verbatim>\<open>__line__\<close> alone. A bare
  number is skipped, as the claim says.
\<close>

theorem marker_in_string_raises:
  "yaml_iter (splitlines ''- x__line__y'') [PList [PStr ''x__line__y'']] = Inl TypeError
   \<and> parse_file (\<lambda>v. []) ''- x__line__y'' (Inr (PList [PStr ''x__line__y''])) = Inl TypeError
   \<and> parse_file (\<lambda>v. []) ''- __line__'' (Inr (PList [PStr ''__line__''])) = Inl TypeError
   \<and> parse_file (\<lambda>v. []) ''a: {__line__: 1}''
        (Inr (PDict [(PStr ''a'', PDict [(PStr ''__line__'', PInt 1)])])) = Inl KeyError
   \<and> parse_file (\<lambda>v. []) ''- 5'' (Inr (PList [PInt 5])) = Inr []"
  by (simp add: parse_file_def sorted_items_def splitlines_def is_linebreak_def
        make_value_def list_get_def)

section \<open>The rewriting of mapping values during composition\<close>

lemma tag_pairs_shape:
  "tag_pairs t kvs = Inr new \<Longrightarrow>
   list_all2 (\<lambda>kv kv'. fst kv' = fst kv
       \<and> (if endswith (tag (snd kv)) '':str'' \<or> endswith (tag (snd kv)) '':binary''
          then augmented_string t (fst kv) (snd kv) = Inr (snd kv')
          else snd kv' = snd kv)) kvs new"
proof (induction kvs arbitrary: new)
  case Nil
  then show ?case by simp
next
  case (Cons kv kvs)
  obtain k v where kv: "kv = (k, v)" by (cases kv)
  show ?case
  proof (cases "endswith (tag v) '':str'' \<or> endswith (tag v) '':binary''")
    case True
    with Cons.prems kv obtain a rest where
      "augmented_string t k v = Inr a" "tag_pairs t kvs = Inr rest" "new = (k, a) # rest"
      by (auto split: sum.splits)
    with Cons.IH [of rest] True kv show ?thesis by simp
  next
    case False
    with Cons.prems kv obtain rest where
      "tag_pairs t kvs = Inr rest" "new = (k, v) # rest"
      by (auto split: sum.splits)
    with Cons.IH [of rest] False kv show ?thesis by simp
  qed
qed

lemma augmented_string_Inr:
  "augmented_string t k v = Inr a \<longleftrightarrow>
     (\<exists>l. line_stamp v = Some l \<and> a = provenance_mapping t k v l)"
  by (auto simp: augmented_string_def create_key_value_pair_for_mapping_node_value_def
        provenance_mapping_def str_tag_def int_tag_def split: option.splits)

lemma tag_dict_values_Pairs:
  assumes "tag_dict_values (Node c t (Pairs kvs) st sp fs) = Inr out"
  shows "\<exists>new. out = Node MappingNode t (Pairs new) None sp fs
     \<and> length new = length kvs
     \<and> (\<forall>i<length kvs. fst (new ! i) = fst (kvs ! i)
          \<and> (if endswith (tag (snd (kvs ! i))) '':str''
                 \<or> endswith (tag (snd (kvs ! i))) '':binary''
              then \<exists>l. line_stamp (snd (kvs ! i)) = Some l
                 \<and> snd (new ! i) = provenance_mapping t (fst (kvs ! i)) (snd (kvs ! i)) l
              else snd (new ! i) = snd (kvs ! i)))"
proof -
  from assms obtain new where n: "tag_pairs t kvs = Inr new"
    and o: "out = Node MappingNode t (Pairs new) None sp fs"
    by (auto simp: tag_dict_values_def split: sum.splits)
  from tag_pairs_shape [OF n] have
    len: "length kvs = length new" and
    each: "\<forall>i<length kvs. fst (new ! i) = fst (kvs ! i)
       \<and> (if endswith (tag (snd (kvs ! i))) '':str'' \<or> endswith (tag (snd (kvs ! i))) '':binary''
          then augmented_string t (fst (kvs ! i)) (snd (kvs ! i)) = Inr (snd (new ! i))
          else snd (new ! i) = snd (kvs ! i))"
    by (simp_all add: list_all2_conv_all_nth)
  have "\<forall>i<length kvs. fst (new ! i) = fst (kvs ! i)
          \<and> (if endswith (tag (snd (kvs ! i))) '':str''
                 \<or> endswith (tag (snd (kvs ! i))) '':binary''
              then \<exists>l. line_stamp (snd (kvs ! i)) = Some l
                 \<and> snd (new ! i) = provenance_mapping t (fst (kvs ! i)) (snd (kvs ! i)) l
              else snd (new ! i) = snd (kvs ! i))"
  proof (intro allI impI)
    fix i assume "i < length kvs"
    with each have e: "fst (new ! i) = fst (kvs ! i)
       \<and> (if endswith (tag (snd (kvs ! i))) '':str'' \<or> endswith (tag (snd (kvs ! i))) '':binary''
          then augmented_string t (fst (kvs ! i)) (snd (kvs ! i)) = Inr (snd (new ! i))
          else snd (new ! i) = snd (kvs ! i))"
      by blast
    then show "fst (new ! i) = fst (kvs ! i)
          \<and> (if endswith (tag (snd (kvs ! i))) '':str''
                 \<or> endswith (tag (snd (kvs ! i))) '':binary''
              then \<exists>l. line_stamp (snd (kvs ! i)) = Some l
                 \<and> snd (new ! i) = provenance_mapping t (fst (kvs ! i)) (snd (kvs ! i)) l
              else snd (new ! i) = snd (kvs ! i))"
      by (cases "endswith (tag (snd (kvs ! i))) '':str''
                 \<or> endswith (tag (snd (kvs ! i))) '':binary''")
         (simp_all add: augmented_string_Inr)
  qed
  with o len show ?thesis by (intro exI [of _ new]) simp
qed




section \<open>The inline flag of flow mappings\<close>

lemma check_next_tokens_flow_entry_key:
  "check_next_tokens_shim ld [FlowEntryToken, KeyToken] =
     (tokens ld \<noteq> [] \<and> token_class (tokens ld ! 0) = FlowEntryToken
      \<and> (1 < length (tokens ld) \<longrightarrow> token_class (tokens ld ! 1) = KeyToken))"
proof (cases "tokens ld")
  case Nil
  then show ?thesis by (simp add: check_next_tokens_shim_def)
next
  case (Cons t ts)
  then show ?thesis by (cases ts) (auto simp: check_next_tokens_shim_def)
qed

lemma shim_flag:
  assumes "parse_flow_mapping_key_shim fetch parse_key first p = Inr p'"
  shows "is_inline_flow_mapping_key p' =
       ((first \<and> marks (loader p) \<noteq> [] \<and> tokens (fetch (loader p)) \<noteq> []
          \<and> last (marks (loader p)) = start_mark_line (hd (tokens (fetch (loader p)))))
        \<or> check_next_tokens_shim (if first then fetch (loader p) else loader p)
             [FlowEntryToken, KeyToken])"
  using assms
  by (auto simp: parse_flow_mapping_key_shim_def peek_token_def Let_def
      split: if_splits list.splits sum.splits option.splits prod.splits)

lemma node_line_cases:
  "node_line p = Inr l \<longleftrightarrow>
     (if is_inline_flow_mapping_key p then marks (loader p) \<noteq> [] \<and> l = last (marks (loader p))
      else l = loader_line (loader p))"
  by (auto simp: node_line_def split: list.splits)

lemma compose_node_shim_stamp:
  assumes "compose p = Inr (p1, n)" and "compose_node_shim compose p = Inr (p2, out)"
    and "\<not> endswith (tag n) '':map''"
  shows "\<exists>l. node_line p = Inr l \<and> p2 = p1
          \<and> out = Node (node_class n) (tag n) (node_value n) (Some (l + 1)) (span n) (flow_style n)"
  using assms
  by (auto simp: compose_node_shim_def Let_def split: sum.splits if_splits)




end
